theory Spec2Isabelle
  imports Complex_Main
begin

section \<open>Toy congestion-control simulator (sim\_core.py)\<close>

text \<open>
  A shallow embedding of \<^verbatim>\<open>sim_core.py\<close>: the \<^verbatim>\<open>Flow\<close> congestion-control
  state machines, the \<^verbatim>\<open>Switch\<close> queue and the \<^verbatim>\<open>Simulator\<close> stepping loop.

  Conventions of the embedding.
  \<^item> Python floats are modelled as \<^typ>\<open>real\<close>: arithmetic is exact, there is no rounding,
    no overflow to infinity and no NaN. The one infinite value the program uses on purpose,
    \<^verbatim>\<open>float('inf')\<close> as the size of a long-lived flow, is a constructor of its own.
  \<^item> Objects are values: a method that mutates \<^verbatim>\<open>self\<close> takes the object and returns
    the updated one. Every \<^verbatim>\<open>Flow\<close> object is taken to be held once by a simulator
    (the drivers build a fresh object for each call of \<^verbatim>\<open>add_flow\<close>).
  \<^item> A Python exception is a value \<open>Inl e\<close> of a sum type.
  \<^item> The numpy random generator is not part of the program: its three sampling methods
    are taken as parameters that map a generator state to a sample and the next state.
\<close>

subsection \<open>Module constants\<close>

definition PKT_BYTES :: real where
  "PKT_BYTES = 1500"

definition LINK_RATE_GBPS :: real where
  "LINK_RATE_GBPS = 10"

definition LINK_RATE_BPS :: real where
  "LINK_RATE_BPS = LINK_RATE_GBPS * 1000000000"

definition LINK_RATE_BYTES_PER_MS :: real where
  "LINK_RATE_BYTES_PER_MS = LINK_RATE_BPS / 8 / 1000"

subsection \<open>Flow\<close>

text \<open>The size of a flow: a number of bytes, or \<^verbatim>\<open>float('inf')\<close>.\<close>

datatype fsize = Fin real | PosInf

datatype py_error = TypeError | ZeroDivisionError | ValueError

record flow =
  fid :: int
  cc :: string
  cwnd :: real
  rtt_base_ms :: real
  size_bytes :: fsize
  sent_bytes :: real
  alpha :: real
  g :: real
  rtt_smooth :: real
  finished :: bool
  start_time_ms :: "real option"
  finish_time_ms :: "real option"

text \<open>\<^verbatim>\<open>Flow.__init__(fid, cc, rtt_base_ms, size_bytes)\<close>\<close>

definition Flow_init :: "int \<Rightarrow> string \<Rightarrow> real \<Rightarrow> fsize \<Rightarrow> flow" where
  "Flow_init i c rtt sz =
     \<lparr>fid = i, cc = c, cwnd = 10, rtt_base_ms = rtt, size_bytes = sz, sent_bytes = 0,
      alpha = 0, g = 1 / 16, rtt_smooth = 0, finished = False,
      start_time_ms = None, finish_time_ms = None\<rparr>"

text \<open>\<^verbatim>\<open>Flow._reno_update(ecn_frac, loss)\<close>\<close>

definition reno_update :: "flow \<Rightarrow> real \<Rightarrow> bool \<Rightarrow> flow" where
  "reno_update f ecn_frac loss =
     (if loss \<or> ecn_frac > 0 then f\<lparr>cwnd := max (cwnd f / 2) 2\<rparr>
      else f\<lparr>cwnd := cwnd f + 0.1 * cwnd f\<rparr>)"

text \<open>\<^verbatim>\<open>Flow._dctcp_update(ecn_frac)\<close>: \<open>alpha\<close> is written first, and the
  window update reads the new value.\<close>

definition dctcp_update :: "flow \<Rightarrow> real \<Rightarrow> flow" where
  "dctcp_update f ecn_frac =
     (let f1 = f\<lparr>alpha := (1 - g f) * alpha f + g f * ecn_frac\<rparr>
      in if ecn_frac > 0 then f1\<lparr>cwnd := max (cwnd f1 * (2 - alpha f1) / 2) 2\<rparr>
         else f1\<lparr>cwnd := cwnd f1 + 0.1 * cwnd f1\<rparr>)"

text \<open>\<^verbatim>\<open>Flow._spacecc_update(rtt_ms, queue_ms, ecn_frac, loss)\<close>: the last three
  arguments are not read.\<close>

definition spacecc_update :: "flow \<Rightarrow> real \<Rightarrow> real \<Rightarrow> real \<Rightarrow> bool \<Rightarrow> flow" where
  "spacecc_update f rtt_ms queue_ms ecn_frac loss =
     (let f1 = (if rtt_smooth f = 0 then f\<lparr>rtt_smooth := rtt_ms\<rparr>
                else f\<lparr>rtt_smooth := 0.9 * rtt_smooth f + 0.1 * rtt_ms\<rparr>);
          rtt_ratio = rtt_smooth f1 / max (rtt_base_ms f1) 0.01
      in if rtt_ratio > 1.25 then f1\<lparr>cwnd := max (cwnd f1 * 0.5) 2\<rparr>
         else f1\<lparr>cwnd := cwnd f1 + cwnd f1 * 0.5 * (0.1 / max rtt_ms 0.1)\<rparr>)"

text \<open>\<^verbatim>\<open>Flow.on_ack(rtt_ms, queue_ms, ecn_frac, loss)\<close>: an \<^verbatim>\<open>if/elif\<close> chain
  with no \<^verbatim>\<open>else\<close>.\<close>

definition on_ack :: "flow \<Rightarrow> real \<Rightarrow> real \<Rightarrow> real \<Rightarrow> bool \<Rightarrow> flow" where
  "on_ack f rtt_ms queue_ms ecn_frac loss =
     (if cc f = ''reno'' then reno_update f ecn_frac loss
      else if cc f = ''dctcp'' then dctcp_update f ecn_frac
      else if cc f = ''spacecc'' then spacecc_update f rtt_ms queue_ms ecn_frac loss
      else f)"

text \<open>The property \<^verbatim>\<open>Flow.rate_bytes_per_ms\<close>\<close>

definition rate_bytes_per_ms :: "flow \<Rightarrow> real" where
  "rate_bytes_per_ms f = (let rtt = max (rtt_base_ms f) 0.01 in cwnd f * PKT_BYTES / rtt)"

subsection \<open>Switch\<close>

record switch =
  buffer_bytes :: real
  ecn_thresh_bytes :: real
  queue_bytes :: real
  total_served_bytes :: real
  ecn_marked :: int
  ecn_total :: int

text \<open>\<^verbatim>\<open>Switch.__init__(buffer_pkts, ecn_thresh_pkts)\<close>\<close>

definition Switch_init :: "int \<Rightarrow> int \<Rightarrow> switch" where
  "Switch_init buffer_pkts ecn_thresh_pkts =
     \<lparr>buffer_bytes = real_of_int buffer_pkts * PKT_BYTES,
      ecn_thresh_bytes = real_of_int ecn_thresh_pkts * PKT_BYTES,
      queue_bytes = 0, total_served_bytes = 0, ecn_marked = 0, ecn_total = 0\<rparr>"

text \<open>\<^verbatim>\<open>Switch.enqueue(bytes_in)\<close> returns the flag and the updated switch.\<close>

definition enqueue :: "switch \<Rightarrow> real \<Rightarrow> bool \<times> switch" where
  "enqueue sw bytes_in =
     (if queue_bytes sw + bytes_in > buffer_bytes sw then (False, sw)
      else (True, sw\<lparr>queue_bytes := queue_bytes sw + bytes_in\<rparr>))"

text \<open>\<^verbatim>\<open>Switch.dequeue(dt_ms)\<close> returns the bytes served and the updated switch.\<close>

definition dequeue :: "switch \<Rightarrow> real \<Rightarrow> real \<times> switch" where
  "dequeue sw dt =
     (let can_serve = LINK_RATE_BYTES_PER_MS * dt;
          served = min (queue_bytes sw) can_serve
      in (served, sw\<lparr>queue_bytes := queue_bytes sw - served,
                      total_served_bytes := total_served_bytes sw + served\<rparr>))"

definition queue_delay_ms :: "switch \<Rightarrow> real" where
  "queue_delay_ms sw =
     (if LINK_RATE_BYTES_PER_MS \<noteq> 0 then queue_bytes sw / LINK_RATE_BYTES_PER_MS else 0)"

definition ecn_fraction :: "switch \<Rightarrow> real" where
  "ecn_fraction sw = (if queue_bytes sw > ecn_thresh_bytes sw then 1 else 0)"

subsection \<open>Metrics and completion records\<close>

text \<open>The fields of \<^verbatim>\<open>Metrics\<close> and \<^verbatim>\<open>FCTRecord\<close> carry a prefix where the source
  reuses the name of a field or property of another class.\<close>

record metrics =
  m_time_ms :: real
  m_queue_bytes :: real
  m_queue_delay_ms :: real
  util :: real
  served_bytes :: real

record fct_record =
  r_fid :: int
  r_cc :: string
  r_size_bytes :: fsize
  fct_ms :: real

subsection \<open>The random generator\<close>

text \<open>The three methods of \<^verbatim>\<open>numpy.random.Generator\<close> the simulator calls:
  \<^verbatim>\<open>exponential(scale)\<close>, \<^verbatim>\<open>normal(loc, scale)\<close> and \<^verbatim>\<open>random()\<close>. Each takes the
  generator state and returns the sample with the next state.\<close>

record 'r rng_ops =
  rng_exponential :: "real \<Rightarrow> 'r \<Rightarrow> real \<times> 'r"
  rng_normal :: "real \<Rightarrow> real \<Rightarrow> 'r \<Rightarrow> real \<times> 'r"
  rng_random :: "'r \<Rightarrow> real \<times> 'r"

subsection \<open>Simulator\<close>

record 'r simulator =
  dt_ms :: real
  duration_ms :: real
  switch :: switch
  rng :: 'r
  flows :: "flow list"
  metrics :: "metrics list"
  fct_records :: "fct_record list"
  short_flow_queue :: "flow list"
  time_ms :: real
  outage_active :: bool
  outage_prob :: real
  outage_duration_ms :: real
  outage_end_ms :: real
  rtt_jitter_std_ms :: real

text \<open>\<^verbatim>\<open>Simulator.__init__(dt_ms, duration_ms, switch, rng)\<close>: a missing switch is
  \<^verbatim>\<open>Switch()\<close>, whose defaults are 300 and 30 packets. The generator is the one the
  simulator ends up holding (the caller's, or a fresh one).\<close>

definition Simulator_init :: "real \<Rightarrow> real \<Rightarrow> switch option \<Rightarrow> 'r \<Rightarrow> 'r simulator" where
  "Simulator_init dt duration sw rs =
     \<lparr>dt_ms = dt, duration_ms = duration,
      switch = (case sw of Some w \<Rightarrow> w | None \<Rightarrow> Switch_init 300 30),
      rng = rs, flows = [], metrics = [], fct_records = [], short_flow_queue = [],
      time_ms = 0, outage_active = False, outage_prob = 0, outage_duration_ms = 0,
      outage_end_ms = - 1, rtt_jitter_std_ms = 0\<rparr>"

text \<open>\<^verbatim>\<open>Simulator.add_flow(flow)\<close>. A flow is a value here: the flows a simulator holds
  are modelled as distinct objects, as when every \<^verbatim>\<open>Flow\<close> is built for one call and not
  kept by the caller (the experiment scripts do so).\<close>

definition add_flow :: "'r simulator \<Rightarrow> flow \<Rightarrow> 'r simulator" where
  "add_flow s f = s\<lparr>flows := flows s @ [f\<lparr>start_time_ms := Some (time_ms s)\<rparr>]\<rparr>"

text \<open>The \<^verbatim>\<open>while\<close> loop of \<^verbatim>\<open>schedule_short_flows\<close>. It ends only when the sum of
  the sampled gaps reaches the duration, so it takes fuel: \<open>None\<close> is a loop that has
  not ended within \<open>n\<close> iterations. \<^verbatim>\<open>1000.0 / lam_per_sec\<close> is evaluated in every
  iteration and raises for a zero rate; numpy's \<^verbatim>\<open>exponential\<close> raises
  \<^verbatim>\<open>ValueError\<close> for a negative scale.\<close>

fun schedule_loop ::
  "nat \<Rightarrow> 'r rng_ops \<Rightarrow> real \<Rightarrow> real \<Rightarrow> fsize \<Rightarrow> string \<Rightarrow> real \<Rightarrow>
   real \<Rightarrow> int \<Rightarrow> 'r \<Rightarrow> flow list \<Rightarrow> (py_error + flow list \<times> 'r) option" where
  "schedule_loop n ops duration lam_per_sec sz c rtt t i rs q =
     (if t < duration then
        (case n of
           0 \<Rightarrow> None
         | Suc m \<Rightarrow>
            if lam_per_sec = 0 then Some (Inl ZeroDivisionError)
            else if 1000 / lam_per_sec < 0 then Some (Inl ValueError)
            else
              (let (gap_ms, rs') = rng_exponential ops (1000 / lam_per_sec) rs;
                   t' = t + gap_ms
               in if t' < duration
                  then schedule_loop m ops duration lam_per_sec sz c rtt t' (i + 1) rs'
                         (q @ [(Flow_init i c rtt sz)\<lparr>start_time_ms := Some t'\<rparr>])
                  else schedule_loop m ops duration lam_per_sec sz c rtt t' i rs' q))
      else Some (Inr (q, rs)))"

text \<open>The equation of the loop is used one unfolding at a time.\<close>

declare schedule_loop.simps [simp del]

text \<open>\<^verbatim>\<open>list.sort(key=lambda f: f.start_time_ms)\<close>: a stable sort. Comparing
  \<^verbatim>\<open>None\<close> with a float raises \<^verbatim>\<open>TypeError\<close>, which takes two elements at least.\<close>

definition sort_by_start :: "flow list \<Rightarrow> py_error + flow list" where
  "sort_by_start q =
     (if 2 \<le> length q \<and> (\<exists>f \<in> set q. start_time_ms f = None) then Inl TypeError
      else Inr (sort_key (\<lambda>f. case start_time_ms f of Some st \<Rightarrow> st | None \<Rightarrow> 0) q))"

text \<open>\<^verbatim>\<open>Simulator.schedule_short_flows(lam_per_sec, size_bytes, cc, rtt_base_ms)\<close>\<close>

definition schedule_short_flows ::
  "nat \<Rightarrow> 'r rng_ops \<Rightarrow> 'r simulator \<Rightarrow> real \<Rightarrow> fsize \<Rightarrow> string \<Rightarrow> real \<Rightarrow>
   (py_error + 'r simulator) option" where
  "schedule_short_flows n ops s lam_per_sec sz c rtt =
     (case schedule_loop n ops (duration_ms s) lam_per_sec sz c rtt 0 10000 (rng s)
             (short_flow_queue s) of
        None \<Rightarrow> None
      | Some (Inl e) \<Rightarrow> Some (Inl e)
      | Some (Inr (q, rs)) \<Rightarrow>
          (case sort_by_start q of
             Inl e \<Rightarrow> Some (Inl e)
           | Inr q' \<Rightarrow> Some (Inr (s\<lparr>rng := rs, short_flow_queue := q'\<rparr>))))"

text \<open>The first loop of \<^verbatim>\<open>_step\<close>: pending short flows whose time has come move from
  the front of the queue to the end of the active list.\<close>

fun admit_due :: "real \<Rightarrow> flow list \<Rightarrow> flow list \<Rightarrow> py_error + flow list \<times> flow list" where
  "admit_due t [] fl = Inr ([], fl)"
| "admit_due t (f # q) fl =
     (case start_time_ms f of
        None \<Rightarrow> Inl TypeError
      | Some st \<Rightarrow>
          if st \<le> t then admit_due t q (fl @ [f\<lparr>start_time_ms := Some t\<rparr>])
          else Inr (f # q, fl))"

text \<open>\<^verbatim>\<open>Simulator._check_outage(t_ms)\<close>\<close>

definition check_outage :: "'r rng_ops \<Rightarrow> 'r simulator \<Rightarrow> real \<Rightarrow> 'r simulator" where
  "check_outage ops s t_ms =
     (if t_ms < outage_end_ms s then s\<lparr>outage_active := True\<rparr>
      else
        (let s1 = s\<lparr>outage_active := False\<rparr>
         in if outage_prob s1 > 0 then
              (let p = outage_prob s1 * (dt_ms s1 / 1000);
                   (u, rs') = rng_random ops (rng s1);
                   s2 = s1\<lparr>rng := rs'\<rparr>
               in if u < p
                  then s2\<lparr>outage_active := True,
                          outage_end_ms := t_ms + outage_duration_ms s2\<rparr>
                  else s2)
            else s1))"

text \<open>One iteration of the send loop of \<^verbatim>\<open>_step\<close> for a flow that is not finished:
  the flow, the switch, the loss flag and the completion records go in and come out.
  \<^verbatim>\<open>t - flow.start_time_ms\<close> raises \<^verbatim>\<open>TypeError\<close> when the start time is
  \<^verbatim>\<open>None\<close>.\<close>

definition send_one ::
  "real \<Rightarrow> real \<Rightarrow> flow \<Rightarrow> switch \<Rightarrow> bool \<Rightarrow> fct_record list \<Rightarrow>
   py_error + flow \<times> switch \<times> bool \<times> fct_record list" where
  "send_one dt t f sw loss_occurred recs =
     (let send_bytes = rate_bytes_per_ms f * dt;
          (ok, sw') = enqueue sw send_bytes;
          loss' = (if \<not> ok then True else loss_occurred);
          f1 = f\<lparr>sent_bytes := sent_bytes f + (if ok then send_bytes else 0)\<rparr>
      in case size_bytes f1 of
           PosInf \<Rightarrow> Inr (f1, sw', loss', recs)
         | Fin sz \<Rightarrow>
             if sent_bytes f1 \<ge> sz then
               (let f2 = f1\<lparr>finished := True, finish_time_ms := Some t\<rparr>
                in case start_time_ms f2 of
                     None \<Rightarrow> Inl TypeError
                   | Some st \<Rightarrow>
                       Inr (f2, sw', loss',
                            recs @ [\<lparr>r_fid = fid f2, r_cc = cc f2,
                                     r_size_bytes = size_bytes f2, fct_ms = t - st\<rparr>]))
             else Inr (f1, sw', loss', recs))"

text \<open>The send loop over \<^verbatim>\<open>self.flows\<close>; finished flows are skipped.\<close>

fun send_phase ::
  "real \<Rightarrow> real \<Rightarrow> flow list \<Rightarrow> switch \<Rightarrow> bool \<Rightarrow> fct_record list \<Rightarrow>
   py_error + flow list \<times> switch \<times> bool \<times> fct_record list" where
  "send_phase dt t [] sw loss_occurred recs = Inr ([], sw, loss_occurred, recs)"
| "send_phase dt t (f # fs) sw loss_occurred recs =
     (if finished f then
        (case send_phase dt t fs sw loss_occurred recs of
           Inl e \<Rightarrow> Inl e
         | Inr (fs', sw', loss', recs') \<Rightarrow> Inr (f # fs', sw', loss', recs'))
      else
        (case send_one dt t f sw loss_occurred recs of
           Inl e \<Rightarrow> Inl e
         | Inr (f', sw1, loss1, recs1) \<Rightarrow>
             (case send_phase dt t fs sw1 loss1 recs1 of
                Inl e \<Rightarrow> Inl e
              | Inr (fs', sw', loss', recs') \<Rightarrow> Inr (f' # fs', sw', loss', recs'))))"

text \<open>The feedback loop of \<^verbatim>\<open>_step\<close>: every unfinished flow draws its jitter (when
  the standard deviation is positive) and gets \<^verbatim>\<open>on_ack\<close> with the queue delay, the
  marking fraction and the loss flag the loop was entered with.\<close>

fun feedback_phase ::
  "'r rng_ops \<Rightarrow> real \<Rightarrow> real \<Rightarrow> real \<Rightarrow> bool \<Rightarrow> flow list \<Rightarrow> 'r \<Rightarrow> flow list \<times> 'r" where
  "feedback_phase ops std queue_ms ecn_frac loss_occurred [] rs = ([], rs)"
| "feedback_phase ops std queue_ms ecn_frac loss_occurred (f # fs) rs =
     (if finished f then
        (let (fs', rs') = feedback_phase ops std queue_ms ecn_frac loss_occurred fs rs
         in (f # fs', rs'))
      else
        (let (jitter, rs1) = (if std > 0 then rng_normal ops 0 std rs else (0, rs));
             rtt_ms = rtt_base_ms f + queue_ms + max jitter (- rtt_base_ms f * 0.9);
             f' = on_ack f rtt_ms queue_ms ecn_frac loss_occurred;
             (fs', rs') = feedback_phase ops std queue_ms ecn_frac loss_occurred fs rs1
         in (f' # fs', rs')))"

text \<open>\<^verbatim>\<open>Simulator._step()\<close>. The marking fraction is read from the switch after the
  outage check and before the send loop; the queue delay is read after the drain.\<close>

definition step :: "'r rng_ops \<Rightarrow> 'r simulator \<Rightarrow> py_error + 'r simulator" where
  "step ops s =
     (let t = time_ms s
      in case admit_due t (short_flow_queue s) (flows s) of
           Inl e \<Rightarrow> Inl e
         | Inr (q1, fl1) \<Rightarrow>
            (let s1 = s\<lparr>short_flow_queue := q1, flows := fl1\<rparr>;
                 s2 = check_outage ops s1 t;
                 in_outage = outage_active s2;
                 ecn_frac = ecn_fraction (switch s2)
             in case send_phase (dt_ms s2) t (flows s2) (switch s2) False (fct_records s2) of
                  Inl e \<Rightarrow> Inl e
                | Inr (fl3, sw3, loss_occurred, recs3) \<Rightarrow>
                   (let (served, sw4) = dequeue sw3 (dt_ms s2);
                        (fl5, rs5) =
                          (if \<not> in_outage
                           then feedback_phase ops (rtt_jitter_std_ms s2) (queue_delay_ms sw4)
                                  ecn_frac loss_occurred fl3 (rng s2)
                           else (fl3, rng s2));
                        cap = LINK_RATE_BYTES_PER_MS * dt_ms s2;
                        m = \<lparr>m_time_ms = t, m_queue_bytes = queue_bytes sw4,
                             m_queue_delay_ms = queue_delay_ms sw4,
                             util = (if cap \<noteq> 0 then served / cap else 0),
                             served_bytes = served\<rparr>
                    in Inr (s2\<lparr>switch := sw4, rng := rs5,
                               flows := filter (\<lambda>f. \<not> finished f) fl5,
                               metrics := metrics s2 @ [m],
                               fct_records := recs3,
                               time_ms := time_ms s2 + dt_ms s2\<rparr>))))"


fun run_steps :: "'r rng_ops \<Rightarrow> nat \<Rightarrow> 'r simulator \<Rightarrow> py_error + 'r simulator" where
  "run_steps ops 0 s = Inr s"
| "run_steps ops (Suc n) s =
     (case step ops s of Inl e \<Rightarrow> Inl e | Inr s' \<Rightarrow> run_steps ops n s')"


subsection \<open>A trial: the calls a driver makes before \<^verbatim>\<open>run\<close>\<close>




subsection \<open>Predicates of the properties\<close>

text \<open>The switch invariant: the occupancy lies between zero and the capacity.\<close>

definition switch_ok :: "switch \<Rightarrow> bool" where
  "switch_ok sw \<longleftrightarrow> 0 \<le> queue_bytes sw \<and> queue_bytes sw \<le> buffer_bytes sw"

text \<open>The window invariant over every flow a simulator holds, active or pending.\<close>

definition cwnd_ok :: "'r simulator \<Rightarrow> bool" where
  "cwnd_ok s \<longleftrightarrow>
     list_all (\<lambda>f. 2 \<le> cwnd f) (flows s) \<and> list_all (\<lambda>f. 2 \<le> cwnd f) (short_flow_queue s)"

text \<open>The state the public interface leaves between steps: no held flow is finished, and
  every active flow carries a start time that is not in the future.\<close>

definition started_by :: "real \<Rightarrow> flow \<Rightarrow> bool" where
  "started_by t f \<longleftrightarrow> (case start_time_ms f of None \<Rightarrow> False | Some st \<Rightarrow> st \<le> t)"

definition active_ok :: "'r simulator \<Rightarrow> bool" where
  "active_ok s \<longleftrightarrow>
     list_all (\<lambda>f. \<not> finished f \<and> started_by (time_ms s) f) (flows s) \<and>
     list_all (\<lambda>f. \<not> finished f) (short_flow_queue s)"

text \<open>The congestion-control state of a flow.\<close>

definition cc_state :: "flow \<Rightarrow> real \<times> real \<times> real" where
  "cc_state f = (cwnd f, alpha f, rtt_smooth f)"

text \<open>A flow after the feedback loop, against the same flow before it: a finished flow is
  left alone, any other got \<^verbatim>\<open>on_ack\<close> with the given delay, marking fraction and loss
  flag, and with some round-trip sample.\<close>

definition fed_with :: "real \<Rightarrow> real \<Rightarrow> bool \<Rightarrow> flow \<Rightarrow> flow \<Rightarrow> bool" where
  "fed_with queue_ms ecn_frac loss f f' \<longleftrightarrow>
     (if finished f then f' = f
      else \<exists>rtt_ms. f' = on_ack f rtt_ms queue_ms ecn_frac loss)"

text \<open>A completion record against the flow it was written for, at step time \<open>t\<close>.\<close>

definition records_flow :: "real \<Rightarrow> flow \<Rightarrow> fct_record \<Rightarrow> bool" where
  "records_flow t f r \<longleftrightarrow>
     r_fid r = fid f \<and> r_cc r = cc f \<and> r_size_bytes r = size_bytes f \<and>
     finish_time_ms f = Some t \<and>
     (case start_time_ms f of None \<Rightarrow> False | Some st \<Rightarrow> fct_ms r = t - st \<and> 0 \<le> fct_ms r)"




subsection \<open>A generator and trials to run the model on\<close>

text \<open>A generator whose state is a counter and whose samples alternate with its parity.\<close>

definition parity_ops :: "nat rng_ops" where
  "parity_ops =
     \<lparr>rng_exponential = (\<lambda>sc n. (sc * (1 + real (n mod 2)), n + 1)),
      rng_normal = (\<lambda>loc sc n. (loc + sc * (real (n mod 2) - 1 / 2), n + 1)),
      rng_random = (\<lambda>n. (real (n mod 2) / 2, n + 1))\<rparr>"


text \<open>One Reno flow with a base round trip of 0.01 ms on the default switch, in steps of
  0.2 ms: the first step sends 300000 bytes into the empty queue and drains 250000.\<close>

definition burst_sim :: "nat simulator" where
  "burst_sim = add_flow (Simulator_init 0.2 1 None 0) (Flow_init 0 ''reno'' 0.01 PosInf)"

text \<open>One SpaceCC flow of 3000 bytes in steps of 1 ms, with an outage certain to start
  in the first step (the generator's first sample is 0).\<close>

definition outage_sim :: "nat simulator" where
  "outage_sim =
     add_flow ((Simulator_init 1 3 None 0)\<lparr>outage_prob := 1000, outage_duration_ms := 2\<rparr>)
       (Flow_init 7 ''spacecc'' 10 (Fin 3000))"

text \<open>A trial with jitter, in steps of 10 ms for 50 ms, seeded with a generator state; and
  the same trial, seeded with 0, after scheduling short DCTCP flows of 3000 bytes at 50 per
  second (one arrival, at 20 ms; two samples drawn).\<close>

definition mix_sim :: "nat \<Rightarrow> nat simulator" where
  "mix_sim seed = (Simulator_init 10 50 None seed)\<lparr>rtt_jitter_std_ms := 1\<rparr>"

definition mix_scheduled :: "nat simulator" where
  "mix_scheduled =
     (mix_sim 0)\<lparr>rng := 2,
       short_flow_queue := [(Flow_init 10000 ''dctcp'' 1 (Fin 3000))\<lparr>start_time_ms := Some 20\<rparr>]\<rparr>"

text \<open>A flow after its turn in the send loop, against the flow before: the loop writes
  \<open>sent_bytes\<close>, \<open>finished\<close> and \<open>finish_time_ms\<close> only.\<close>

definition sent_from :: "flow \<Rightarrow> flow \<Rightarrow> bool" where
  "sent_from f f' \<longleftrightarrow>
     fid f' = fid f \<and> cc f' = cc f \<and> cwnd f' = cwnd f \<and> rtt_base_ms f' = rtt_base_ms f \<and>
     size_bytes f' = size_bytes f \<and> alpha f' = alpha f \<and> g f' = g f \<and>
     rtt_smooth f' = rtt_smooth f \<and> start_time_ms f' = start_time_ms f"

text \<open>The first trial after its first step, the flows of that step after the send loop, and
  the second trial after its first step.\<close>

definition burst_after :: "nat simulator" where
  "burst_after =
     \<lparr>dt_ms = 1 / 5, duration_ms = 1,
      switch = \<lparr>buffer_bytes = 450000, ecn_thresh_bytes = 45000, queue_bytes = 50000,
                total_served_bytes = 250000, ecn_marked = 0, ecn_total = 0\<rparr>,
      rng = 0,
      flows = [\<lparr>fid = 0, cc = ''reno'', cwnd = 11, rtt_base_ms = 1 / 100, size_bytes = PosInf,
                sent_bytes = 300000, alpha = 0, g = 1 / 16, rtt_smooth = 0, finished = False,
                start_time_ms = Some 0, finish_time_ms = None\<rparr>],
      metrics = [\<lparr>m_time_ms = 0, m_queue_bytes = 50000, m_queue_delay_ms = 1 / 25, util = 1,
                  served_bytes = 250000\<rparr>],
      fct_records = [], short_flow_queue = [], time_ms = 1 / 5, outage_active = False,
      outage_prob = 0, outage_duration_ms = 0, outage_end_ms = - 1, rtt_jitter_std_ms = 0\<rparr>"


definition outage_after :: "nat simulator" where
  "outage_after =
     \<lparr>dt_ms = 1, duration_ms = 3,
      switch = \<lparr>buffer_bytes = 450000, ecn_thresh_bytes = 45000, queue_bytes = 0,
                total_served_bytes = 1500, ecn_marked = 0, ecn_total = 0\<rparr>,
      rng = 1,
      flows = [\<lparr>fid = 7, cc = ''spacecc'', cwnd = 10, rtt_base_ms = 10, size_bytes = Fin 3000,
                sent_bytes = 1500, alpha = 0, g = 1 / 16, rtt_smooth = 0, finished = False,
                start_time_ms = Some 0, finish_time_ms = None\<rparr>],
      metrics = [\<lparr>m_time_ms = 0, m_queue_bytes = 0, m_queue_delay_ms = 0, util = 3 / 2500,
                  served_bytes = 1500\<rparr>],
      fct_records = [], short_flow_queue = [], time_ms = 1, outage_active = True,
      outage_prob = 1000, outage_duration_ms = 2, outage_end_ms = 2, rtt_jitter_std_ms = 0\<rparr>"

text \<open>The state after the second step of the outage trial.\<close>

definition outage_done :: "nat simulator" where
  "outage_done =
     \<lparr>dt_ms = 1, duration_ms = 3,
      switch = \<lparr>buffer_bytes = 450000, ecn_thresh_bytes = 45000, queue_bytes = 0,
                total_served_bytes = 3000, ecn_marked = 0, ecn_total = 0\<rparr>,
      rng = 1, flows = [],
      metrics = [\<lparr>m_time_ms = 0, m_queue_bytes = 0, m_queue_delay_ms = 0, util = 3 / 2500,
                  served_bytes = 1500\<rparr>,
                 \<lparr>m_time_ms = 1, m_queue_bytes = 0, m_queue_delay_ms = 0, util = 3 / 2500,
                  served_bytes = 1500\<rparr>],
      fct_records = [\<lparr>r_fid = 7, r_cc = ''spacecc'', r_size_bytes = Fin 3000, fct_ms = 1\<rparr>],
      short_flow_queue = [], time_ms = 2, outage_active = True, outage_prob = 1000,
      outage_duration_ms = 2, outage_end_ms = 2, rtt_jitter_std_ms = 0\<rparr>"



section \<open>Properties of a flow\<close>

lemma reno_update_cwnd: "2 \<le> cwnd f \<Longrightarrow> 2 \<le> cwnd (reno_update f e l)"
  by (simp add: reno_update_def)

lemma dctcp_update_cwnd: "2 \<le> cwnd f \<Longrightarrow> 2 \<le> cwnd (dctcp_update f e)"
  by (simp add: dctcp_update_def Let_def)

lemma spacecc_growth_nonneg: "2 \<le> (c::real) \<Longrightarrow> 0 \<le> c * 0.5 * (0.1 / max r 0.1)"
  by (intro mult_nonneg_nonneg divide_nonneg_nonneg) (auto simp: max_def)

lemma spacecc_update_cwnd: "2 \<le> cwnd f \<Longrightarrow> 2 \<le> cwnd (spacecc_update f r q e l)"
proof -
  assume h: "2 \<le> cwnd f"
  have "2 \<le> cwnd f + cwnd f * 0.5 * (0.1 / max r 0.1)"
    by (rule add_increasing2 [OF spacecc_growth_nonneg [OF h] h])
  then show ?thesis
    unfolding spacecc_update_def Let_def
    by (auto simp del: times_divide_eq_right times_divide_eq_left divide_divide_eq_left
        divide_divide_eq_right)
qed

lemma on_ack_cwnd: "2 \<le> cwnd f \<Longrightarrow> 2 \<le> cwnd (on_ack f rtt_ms queue_ms ecn_frac loss)"
  by (simp add: on_ack_def reno_update_cwnd dctcp_update_cwnd spacecc_update_cwnd)

lemma on_ack_finished [simp]: "finished (on_ack f r q e l) = finished f"
  by (simp add: on_ack_def reno_update_def dctcp_update_def spacecc_update_def Let_def)

lemma on_ack_fid [simp]: "fid (on_ack f r q e l) = fid f"
  by (simp add: on_ack_def reno_update_def dctcp_update_def spacecc_update_def Let_def)

lemma on_ack_start [simp]: "start_time_ms (on_ack f r q e l) = start_time_ms f"
  by (simp add: on_ack_def reno_update_def dctcp_update_def spacecc_update_def Let_def)

lemma on_ack_g [simp]: "g (on_ack f r q e l) = g f"
  by (simp add: on_ack_def reno_update_def dctcp_update_def spacecc_update_def Let_def)

lemma dctcp_update_eq:
  assumes "g f = 1 / 16"
  shows "dctcp_update f ecn_frac =
      (let a = (1 - 1 / 16) * alpha f + (1 / 16) * ecn_frac
       in f\<lparr>alpha := a,
             cwnd := (if ecn_frac > 0 then max (cwnd f * (2 - a) / 2) 2
                      else cwnd f + 0.1 * cwnd f)\<rparr>)"
  unfolding dctcp_update_def Let_def assms by simp

text \<open>
  Claim C5. For a flow whose tag is \<^verbatim>\<open>spacecc\<close>, \<^verbatim>\<open>on_ack\<close> sets \<open>rtt_smooth\<close> to the
  sample when it holds the initial value 0 and to \<open>0.9 * rtt_smooth + 0.1 * rtt_ms\<close>
  otherwise, divides the new value by \<open>max rtt_base_ms 0.01\<close>, and halves the window
  (not below 2) when the ratio exceeds 1.25, else grows it by
  \<open>cwnd * 0.5 * (0.1 / max rtt_ms 0.1)\<close>. No other field changes.
\<close>

theorem spacecc_on_ack:
  "cc f = ''spacecc'' \<Longrightarrow>
   on_ack f rtt_ms queue_ms ecn_frac loss =
     (let smooth = (if rtt_smooth f = 0 then rtt_ms else 0.9 * rtt_smooth f + 0.1 * rtt_ms);
          rtt_ratio = smooth / max (rtt_base_ms f) 0.01
      in f\<lparr>rtt_smooth := smooth,
            cwnd := (if rtt_ratio > 1.25 then max (cwnd f * 0.5) 2
                     else cwnd f + cwnd f * 0.5 * (0.1 / max rtt_ms 0.1))\<rparr>)"
  by (simp add: on_ack_def spacecc_update_def Let_def)

theorem spacecc_on_ack_witness:
  "cc (Flow_init 1 ''spacecc'' 200 PosInf) = ''spacecc'' \<and>
   rtt_smooth (on_ack (Flow_init 1 ''spacecc'' 200 PosInf) 300 0 0 False) = 300 \<and>
   cwnd (on_ack (Flow_init 1 ''spacecc'' 200 PosInf) 300 0 0 False) = 5 \<and>
   rtt_smooth (on_ack (on_ack (Flow_init 1 ''spacecc'' 200 PosInf) 300 0 0 False) 200 0 0 False)
     = 290 \<and>
   cwnd (on_ack (Flow_init 1 ''spacecc'' 200 PosInf) 200 0 0 False) = 10 + 1 / 400"
  using spacecc_on_ack [of "Flow_init 1 ''spacecc'' 200 PosInf" 300 0 0 False]
    spacecc_on_ack [of "on_ack (Flow_init 1 ''spacecc'' 200 PosInf) 300 0 0 False" 200 0 0 False]
    spacecc_on_ack [of "Flow_init 1 ''spacecc'' 200 PosInf" 200 0 0 False]
  by (simp add: Flow_init_def Let_def)

text \<open>
  Claim C6. The gain \<open>g\<close> of a flow is 1/16 from its construction on and \<^verbatim>\<open>on_ack\<close>
  never changes it. For a flow whose tag is \<^verbatim>\<open>dctcp\<close>, \<^verbatim>\<open>on_ack\<close> first sets
  \<open>alpha\<close> to \<open>(1 - 1/16) * alpha + (1/16) * ecn_frac\<close>; then, with the new \<open>alpha\<close>, the
  window becomes \<open>max (cwnd * (2 - alpha) / 2) 2\<close> when \<open>ecn_frac > 0\<close> and
  \<open>cwnd + 0.1 * cwnd\<close> otherwise. No other field changes.
\<close>

theorem dctcp_on_ack:
  "g (Flow_init i c rtt sz) = 1 / 16 \<and> g (on_ack f rtt_ms queue_ms ecn_frac loss) = g f \<and>
   (cc f = ''dctcp'' \<and> g f = 1 / 16 \<longrightarrow>
    on_ack f rtt_ms queue_ms ecn_frac loss =
      (let a = (1 - 1 / 16) * alpha f + (1 / 16) * ecn_frac
       in f\<lparr>alpha := a,
             cwnd := (if ecn_frac > 0 then max (cwnd f * (2 - a) / 2) 2
                      else cwnd f + 0.1 * cwnd f)\<rparr>))"
proof (intro conjI impI)
  show "g (Flow_init i c rtt sz) = 1 / 16" by (simp add: Flow_init_def)
  show "g (on_ack f rtt_ms queue_ms ecn_frac loss) = g f" by (rule on_ack_g)
next
  assume h: "cc f = ''dctcp'' \<and> g f = 1 / 16"
  then have "on_ack f rtt_ms queue_ms ecn_frac loss = dctcp_update f ecn_frac"
    by (simp add: on_ack_def)
  with h show "on_ack f rtt_ms queue_ms ecn_frac loss =
      (let a = (1 - 1 / 16) * alpha f + (1 / 16) * ecn_frac
       in f\<lparr>alpha := a,
             cwnd := (if ecn_frac > 0 then max (cwnd f * (2 - a) / 2) 2
                      else cwnd f + 0.1 * cwnd f)\<rparr>)"
    using dctcp_update_eq [of f ecn_frac] by simp
qed

theorem dctcp_on_ack_witness:
  "cc (Flow_init 1 ''dctcp'' 1 PosInf) = ''dctcp'' \<and> g (Flow_init 1 ''dctcp'' 1 PosInf) = 1 / 16 \<and>
   alpha (on_ack (Flow_init 1 ''dctcp'' 1 PosInf) 1 0 1 False) = 1 / 16 \<and>
   cwnd (on_ack (Flow_init 1 ''dctcp'' 1 PosInf) 1 0 1 False) = 155 / 16 \<and>
   cwnd (on_ack (Flow_init 1 ''dctcp'' 1 PosInf) 1 0 0 False) = 11"
  using dctcp_on_ack [of 1 "''dctcp''" 1 PosInf "Flow_init 1 ''dctcp'' 1 PosInf" 1 0 1 False]
    dctcp_on_ack [of 1 "''dctcp''" 1 PosInf "Flow_init 1 ''dctcp'' 1 PosInf" 1 0 0 False]
  by (simp add: Flow_init_def Let_def)

text \<open>
  Claim C10. For a flow whose tag is none of \<^verbatim>\<open>reno\<close>, \<^verbatim>\<open>dctcp\<close> and
  \<^verbatim>\<open>spacecc\<close>, \<^verbatim>\<open>on_ack\<close> returns the flow as it was, whatever the inputs.
\<close>

theorem on_ack_unknown_cc:
  "cc f \<noteq> ''reno'' \<Longrightarrow> cc f \<noteq> ''dctcp'' \<Longrightarrow> cc f \<noteq> ''spacecc'' \<Longrightarrow>
   on_ack f rtt_ms queue_ms ecn_frac loss = f"
  by (simp add: on_ack_def)

theorem on_ack_unknown_cc_witness:
  "cc (Flow_init 3 ''cubic'' 1 PosInf) \<noteq> ''reno'' \<and>
   cc (Flow_init 3 ''cubic'' 1 PosInf) \<noteq> ''dctcp'' \<and>
   cc (Flow_init 3 ''cubic'' 1 PosInf) \<noteq> ''spacecc'' \<and>
   on_ack (Flow_init 3 ''cubic'' 1 PosInf) 5 4 1 True = Flow_init 3 ''cubic'' 1 PosInf"
  using on_ack_unknown_cc [of "Flow_init 3 ''cubic'' 1 PosInf" 5 4 1 True]
  by (simp add: Flow_init_def)

section \<open>Properties of the switch\<close>

text \<open>
  Claim C4. \<^verbatim>\<open>enqueue\<close> is all or nothing: when the occupancy plus the request fits the
  buffer, it returns true and the switch with the occupancy raised by exactly the request;
  otherwise it returns false and the switch unchanged.
\<close>

theorem enqueue_all_or_nothing:
  "(queue_bytes sw + b \<le> buffer_bytes sw \<longrightarrow>
      enqueue sw b = (True, sw\<lparr>queue_bytes := queue_bytes sw + b\<rparr>)) \<and>
   (\<not> queue_bytes sw + b \<le> buffer_bytes sw \<longrightarrow> enqueue sw b = (False, sw))"
  by (simp add: enqueue_def)

theorem enqueue_all_or_nothing_witness:
  "queue_bytes (Switch_init 300 30) + 1500 \<le> buffer_bytes (Switch_init 300 30) \<and>
   enqueue (Switch_init 300 30) 1500 = (True, (Switch_init 300 30)\<lparr>queue_bytes := 1500\<rparr>) \<and>
   \<not> queue_bytes (Switch_init 300 30) + 450001 \<le> buffer_bytes (Switch_init 300 30) \<and>
   enqueue (Switch_init 300 30) 450001 = (False, Switch_init 300 30)"
  using enqueue_all_or_nothing [of "Switch_init 300 30" 1500]
    enqueue_all_or_nothing [of "Switch_init 300 30" 450001]
  by (simp add: Switch_init_def PKT_BYTES_def)

text \<open>
  Claim C3. The invariant \<open>0 \<le> queue_bytes \<le> buffer_bytes\<close> holds for a new switch (of a
  capacity that is not negative), and every \<^verbatim>\<open>enqueue\<close> of a non-negative amount and
  every \<^verbatim>\<open>dequeue\<close> over a non-negative time keeps it.
\<close>

theorem switch_invariant:
  "(0 \<le> buffer_pkts \<longrightarrow> switch_ok (Switch_init buffer_pkts ecn_thresh_pkts)) \<and>
   (switch_ok sw \<and> 0 \<le> bytes_in \<longrightarrow> switch_ok (snd (enqueue sw bytes_in))) \<and>
   (switch_ok sw \<and> 0 \<le> dt \<longrightarrow> switch_ok (snd (dequeue sw dt)))"
  by (simp add: switch_ok_def Switch_init_def PKT_BYTES_def enqueue_def dequeue_def Let_def
      LINK_RATE_BYTES_PER_MS_def LINK_RATE_BPS_def LINK_RATE_GBPS_def min_def)

theorem switch_invariant_witness:
  "(0::int) \<le> 300 \<and> switch_ok (Switch_init 300 30) \<and>
   (0::real) \<le> 1500 \<and> switch_ok (snd (enqueue (Switch_init 300 30) 1500)) \<and>
   queue_bytes (snd (enqueue (Switch_init 300 30) 1500)) = 1500 \<and>
   (0::real) \<le> 1 / 1000 \<and>
   switch_ok (snd (dequeue (snd (enqueue (Switch_init 300 30) 1500)) (1 / 1000))) \<and>
   queue_bytes (snd (dequeue (snd (enqueue (Switch_init 300 30) 1500)) (1 / 1000))) = 250"
  using switch_invariant [of 300 30 "Switch_init 300 30" 1500 0]
    switch_invariant [of 300 30 "snd (enqueue (Switch_init 300 30) 1500)" 0 "1 / 1000"]
  by (simp add: Switch_init_def PKT_BYTES_def enqueue_def dequeue_def Let_def
      LINK_RATE_BYTES_PER_MS_def LINK_RATE_BPS_def LINK_RATE_GBPS_def)

section \<open>Properties of a step\<close>

subsection \<open>The step, phase by phase\<close>

lemma check_outage_frame [simp]:
  "flows (check_outage ops s t) = flows s"
  "short_flow_queue (check_outage ops s t) = short_flow_queue s"
  "switch (check_outage ops s t) = switch s"
  "dt_ms (check_outage ops s t) = dt_ms s"
  "duration_ms (check_outage ops s t) = duration_ms s"
  "fct_records (check_outage ops s t) = fct_records s"
  "metrics (check_outage ops s t) = metrics s"
  "time_ms (check_outage ops s t) = time_ms s"
  "rtt_jitter_std_ms (check_outage ops s t) = rtt_jitter_std_ms s"
  "outage_prob (check_outage ops s t) = outage_prob s"
  "outage_duration_ms (check_outage ops s t) = outage_duration_ms s"
  by (simp_all add: check_outage_def Let_def split: prod.splits)

lemma step_admit:
  assumes "step ops s = Inr s'"
  shows "\<exists>q1 fl1. admit_due (time_ms s) (short_flow_queue s) (flows s) = Inr (q1, fl1)"
proof (cases "admit_due (time_ms s) (short_flow_queue s) (flows s)")
  case (Inl e)
  with assms show ?thesis by (simp add: step_def)
next
  case (Inr p)
  then show ?thesis by (cases p) simp
qed

lemma step_send:
  assumes "step ops s = Inr s'"
    and "admit_due (time_ms s) (short_flow_queue s) (flows s) = Inr (q1, fl1)"
  shows "\<exists>fl3 sw3 loss recs3.
    send_phase (dt_ms s) (time_ms s) fl1 (switch s) False (fct_records s) = Inr (fl3, sw3, loss, recs3)"
proof (cases "send_phase (dt_ms s) (time_ms s) fl1 (switch s) False (fct_records s)")
  case (Inl e)
  with assms show ?thesis by (simp add: step_def Let_def)
next
  case (Inr p)
  then show ?thesis by (cases p) simp
qed

lemma step_value:
  assumes "admit_due (time_ms s) (short_flow_queue s) (flows s) = Inr (q1, fl1)"
    and "send_phase (dt_ms s) (time_ms s) fl1 (switch s) False (fct_records s) = Inr (fl3, sw3, loss, recs3)"
    and "s2 = check_outage ops (s\<lparr>short_flow_queue := q1, flows := fl1\<rparr>) (time_ms s)"
    and "sw4 = snd (dequeue sw3 (dt_ms s))"
    and "fb = (if \<not> outage_active s2
           then feedback_phase ops (rtt_jitter_std_ms s) (queue_delay_ms sw4)
                  (ecn_fraction (switch s)) loss fl3 (rng s2)
           else (fl3, rng s2))"
  shows "step ops s =
    Inr (s2\<lparr>switch := sw4, rng := snd fb,
             flows := filter (\<lambda>f. \<not> finished f) (fst fb),
             metrics := metrics s @
               [\<lparr>m_time_ms = time_ms s, m_queue_bytes = queue_bytes sw4,
                 m_queue_delay_ms = queue_delay_ms sw4,
                 util = (if LINK_RATE_BYTES_PER_MS * dt_ms s \<noteq> 0
                         then fst (dequeue sw3 (dt_ms s)) / (LINK_RATE_BYTES_PER_MS * dt_ms s)
                         else 0),
                 served_bytes = fst (dequeue sw3 (dt_ms s))\<rparr>],
             fct_records := recs3, time_ms := time_ms s + dt_ms s\<rparr>)"
  using assms(1,2) unfolding assms(3-5)
  by (simp add: step_def Let_def split: prod.splits)

lemma step_result:
  assumes st: "step ops s = Inr s'"
    and ad: "admit_due (time_ms s) (short_flow_queue s) (flows s) = Inr (q1, fl1)"
    and se: "send_phase (dt_ms s) (time_ms s) fl1 (switch s) False (fct_records s) = Inr (fl3, sw3, loss, recs3)"
  shows "fct_records s' = recs3"
    "switch s' = snd (dequeue sw3 (dt_ms s))"
    "short_flow_queue s' = q1"
    "time_ms s' = time_ms s + dt_ms s"
    "dt_ms s' = dt_ms s"
    "outage_active s' =
       outage_active (check_outage ops (s\<lparr>short_flow_queue := q1, flows := fl1\<rparr>) (time_ms s))"
    "flows s' = filter (\<lambda>f. \<not> finished f)
       (if \<not> outage_active s'
        then fst (feedback_phase ops (rtt_jitter_std_ms s)
                    (queue_delay_ms (snd (dequeue sw3 (dt_ms s)))) (ecn_fraction (switch s)) loss fl3
                    (rng (check_outage ops (s\<lparr>short_flow_queue := q1, flows := fl1\<rparr>) (time_ms s))))
        else fl3)"
proof -
  note v = step_value [OF ad se refl refl refl, of ops]
  from st v have e: "s' = (check_outage ops (s\<lparr>short_flow_queue := q1, flows := fl1\<rparr>) (time_ms s))
      \<lparr>switch := snd (dequeue sw3 (dt_ms s)),
       rng := snd (if \<not> outage_active (check_outage ops (s\<lparr>short_flow_queue := q1, flows := fl1\<rparr>) (time_ms s))
           then feedback_phase ops (rtt_jitter_std_ms s) (queue_delay_ms (snd (dequeue sw3 (dt_ms s))))
                  (ecn_fraction (switch s)) loss fl3 (rng (check_outage ops (s\<lparr>short_flow_queue := q1, flows := fl1\<rparr>) (time_ms s)))
           else (fl3, rng (check_outage ops (s\<lparr>short_flow_queue := q1, flows := fl1\<rparr>) (time_ms s)))),
       flows := filter (\<lambda>f. \<not> finished f) (fst (if \<not> outage_active (check_outage ops (s\<lparr>short_flow_queue := q1, flows := fl1\<rparr>) (time_ms s))
           then feedback_phase ops (rtt_jitter_std_ms s) (queue_delay_ms (snd (dequeue sw3 (dt_ms s))))
                  (ecn_fraction (switch s)) loss fl3 (rng (check_outage ops (s\<lparr>short_flow_queue := q1, flows := fl1\<rparr>) (time_ms s)))
           else (fl3, rng (check_outage ops (s\<lparr>short_flow_queue := q1, flows := fl1\<rparr>) (time_ms s))))),
       metrics := metrics s @
               [\<lparr>m_time_ms = time_ms s, m_queue_bytes = queue_bytes (snd (dequeue sw3 (dt_ms s))),
                 m_queue_delay_ms = queue_delay_ms (snd (dequeue sw3 (dt_ms s))),
                 util = (if LINK_RATE_BYTES_PER_MS * dt_ms s \<noteq> 0
                         then fst (dequeue sw3 (dt_ms s)) / (LINK_RATE_BYTES_PER_MS * dt_ms s)
                         else 0),
                 served_bytes = fst (dequeue sw3 (dt_ms s))\<rparr>],
       fct_records := recs3, time_ms := time_ms s + dt_ms s\<rparr>"
    by simp
  show "fct_records s' = recs3" by (simp add: e)
  show "switch s' = snd (dequeue sw3 (dt_ms s))" by (simp add: e)
  show "short_flow_queue s' = q1" by (simp add: e)
  show "time_ms s' = time_ms s + dt_ms s" by (simp add: e)
  show "dt_ms s' = dt_ms s" by (simp add: e)
  show oa: "outage_active s' =
       outage_active (check_outage ops (s\<lparr>short_flow_queue := q1, flows := fl1\<rparr>) (time_ms s))"
    by (simp add: e)
  show "flows s' = filter (\<lambda>f. \<not> finished f)
       (if \<not> outage_active s'
        then fst (feedback_phase ops (rtt_jitter_std_ms s)
                    (queue_delay_ms (snd (dequeue sw3 (dt_ms s)))) (ecn_fraction (switch s)) loss fl3
                    (rng (check_outage ops (s\<lparr>short_flow_queue := q1, flows := fl1\<rparr>) (time_ms s))))
        else fl3)"
    unfolding oa by (simp add: e)
qed

lemma admit_due_prefix:
  "admit_due t q fl = Inr (q1, fl1) \<Longrightarrow>
   \<exists>adm. q = adm @ q1 \<and> fl1 = fl @ map (\<lambda>f. f\<lparr>start_time_ms := Some t\<rparr>) adm"
proof (induction q arbitrary: fl)
  case Nil
  then show ?case by simp
next
  case (Cons f q)
  show ?case
  proof (cases "start_time_ms f")
    case None
    with Cons.prems show ?thesis by simp
  next
    case (Some st)
    show ?thesis
    proof (cases "st \<le> t")
      case True
      with Some Cons.prems
      have "admit_due t q (fl @ [f\<lparr>start_time_ms := Some t\<rparr>]) = Inr (q1, fl1)" by simp
      from Cons.IH [OF this] obtain adm where
        "q = adm @ q1" "fl1 = (fl @ [f\<lparr>start_time_ms := Some t\<rparr>]) @ map (\<lambda>f. f\<lparr>start_time_ms := Some t\<rparr>) adm"
        by blast
      then have "f # q = (f # adm) @ q1 \<and> fl1 = fl @ map (\<lambda>f. f\<lparr>start_time_ms := Some t\<rparr>) (f # adm)"
        by simp
      then show ?thesis by blast
    next
      case False
      with Some Cons.prems have "q1 = f # q" "fl1 = fl" by simp_all
      then have "f # q = [] @ q1 \<and> fl1 = fl @ map (\<lambda>f. f\<lparr>start_time_ms := Some t\<rparr>) []" by simp
      then show ?thesis by blast
    qed
  qed
qed

lemma sent_from_refl [simp]: "sent_from f f"
  by (simp add: sent_from_def)

lemma send_one_frame:
  "send_one dt t f sw l r = Inr (f', sw', l', r') \<Longrightarrow> sent_from f f'"
  by (auto simp: send_one_def Let_def sent_from_def split: prod.splits fsize.splits if_splits option.splits)

lemma send_one_finish:
  "send_one dt t f sw l r = Inr (f', sw', l', r') \<Longrightarrow> \<not> finished f \<Longrightarrow>
   (finished f' \<longleftrightarrow> (\<exists>sz. size_bytes f' = Fin sz \<and> sz \<le> sent_bytes f'))"
  by (auto simp: send_one_def Let_def split: prod.splits fsize.splits if_splits option.splits)

lemma send_one_record:
  "send_one dt t f sw l r = Inr (f', sw', l', r') \<Longrightarrow> \<not> finished f \<Longrightarrow>
   (if finished f'
    then finish_time_ms f' = Some t \<and>
         (\<exists>st. start_time_ms f = Some st \<and>
               r' = r @ [\<lparr>r_fid = fid f, r_cc = cc f, r_size_bytes = size_bytes f, fct_ms = t - st\<rparr>])
    else r' = r)"
  by (auto simp: send_one_def Let_def split: prod.splits fsize.splits if_splits option.splits)


lemma send_phase_frame:
  "send_phase dt t fl sw l r = Inr (fl', sw', l', r') \<Longrightarrow> list_all2 sent_from fl fl'"
proof (induction fl arbitrary: sw l r fl' sw' l' r')
  case Nil
  then show ?case by simp
next
  case (Cons f fs)
  show ?case
  proof (cases "finished f")
    case True
    with Cons.prems obtain fs' where
      a: "send_phase dt t fs sw l r = Inr (fs', sw', l', r')" and b: "fl' = f # fs'"
      by (auto split: sum.splits)
    from Cons.IH [OF a] b show ?thesis by simp
  next
    case False
    with Cons.prems obtain f1 sw1 l1 r1 fs' where
      a: "send_one dt t f sw l r = Inr (f1, sw1, l1, r1)" and
      b: "send_phase dt t fs sw1 l1 r1 = Inr (fs', sw', l', r')" and c: "fl' = f1 # fs'"
      by (auto split: sum.splits)
    from send_one_frame [OF a] Cons.IH [OF b] c show ?thesis by simp
  qed
qed

lemma sent_from_cc_state: "sent_from f f' \<Longrightarrow> cc_state f' = cc_state f"
  by (simp add: sent_from_def cc_state_def)


lemma send_one_completion:
  "send_one dt t f sw l r = Inr (f', sw', l', r') \<Longrightarrow> \<not> finished f \<Longrightarrow> started_by t f \<Longrightarrow>
   (if finished f' then \<exists>rec. r' = r @ [rec] \<and> records_flow t f' rec else r' = r)"
  by (auto simp: send_one_def Let_def records_flow_def started_by_def
      split: prod.splits fsize.splits if_splits option.splits)

lemma send_phase_completion:
  "send_phase dt t fl sw l r = Inr (fl', sw', l', r') \<Longrightarrow>
   list_all (\<lambda>f. \<not> finished f \<and> started_by t f) fl \<Longrightarrow>
   \<exists>new. r' = r @ new \<and> list_all2 (records_flow t) (filter finished fl') new \<and>
     list_all (\<lambda>f. finished f \<longleftrightarrow> (\<exists>sz. size_bytes f = Fin sz \<and> sz \<le> sent_bytes f)) fl'"
proof (induction fl arbitrary: sw l r fl' sw' l' r')
  case Nil
  then show ?case by simp
next
  case (Cons f fs)
  from Cons.prems(2) have nf: "\<not> finished f" and st: "started_by t f"
    and rest: "list_all (\<lambda>f. \<not> finished f \<and> started_by t f) fs" by simp_all
  from nf Cons.prems(1) obtain f1 sw1 l1 r1 fs' where
    a: "send_one dt t f sw l r = Inr (f1, sw1, l1, r1)" and
    b: "send_phase dt t fs sw1 l1 r1 = Inr (fs', sw', l', r')" and c: "fl' = f1 # fs'"
    by (auto split: sum.splits)
  from Cons.IH [OF b rest] obtain new where
    n1: "r' = r1 @ new" and n2: "list_all2 (records_flow t) (filter finished fs') new" and
    n3: "list_all (\<lambda>f. finished f \<longleftrightarrow> (\<exists>sz. size_bytes f = Fin sz \<and> sz \<le> sent_bytes f)) fs'"
    by blast
  note fin = send_one_finish [OF a nf]
  show ?case
  proof (cases "finished f1")
    case True
    with send_one_completion [OF a nf st] obtain rec where
      r: "r1 = r @ [rec]" and rf: "records_flow t f1 rec" by auto
    have "r' = r @ (rec # new)" using n1 r by simp
    moreover have "list_all2 (records_flow t) (filter finished fl') (rec # new)"
      using c True rf n2 by simp
    moreover have "list_all (\<lambda>f. finished f \<longleftrightarrow> (\<exists>sz. size_bytes f = Fin sz \<and> sz \<le> sent_bytes f)) fl'"
      using c fin n3 by simp
    ultimately show ?thesis by blast
  next
    case False
    with send_one_completion [OF a nf st] have r: "r1 = r" by simp
    have "r' = r @ new" using n1 r by simp
    moreover have "list_all2 (records_flow t) (filter finished fl') new"
      using c False n2 by simp
    moreover have "list_all (\<lambda>f. finished f \<longleftrightarrow> (\<exists>sz. size_bytes f = Fin sz \<and> sz \<le> sent_bytes f)) fl'"
      using c fin n3 by simp
    ultimately show ?thesis by blast
  qed
qed

lemma fed_with_finished: "finished f \<Longrightarrow> fed_with queue_ms ecn_frac loss f f"
  by (simp add: fed_with_def)

lemma fed_with_on_ack:
  "\<not> finished f \<Longrightarrow> fed_with queue_ms ecn_frac loss f (on_ack f rtt_ms queue_ms ecn_frac loss)"
  unfolding fed_with_def by auto

lemma fst_feedback_phase_Cons:
  "fst (feedback_phase ops std queue_ms ecn_frac loss (f # fs) rs) =
     (if finished f then f # fst (feedback_phase ops std queue_ms ecn_frac loss fs rs)
      else on_ack f (rtt_base_ms f + queue_ms +
                       max (fst (if std > 0 then rng_normal ops 0 std rs else (0, rs)))
                           (- rtt_base_ms f * 0.9))
             queue_ms ecn_frac loss #
           fst (feedback_phase ops std queue_ms ecn_frac loss fs
                  (snd (if std > 0 then rng_normal ops 0 std rs else (0, rs)))))"
  by (simp add: Let_def split: prod.splits)

lemma feedback_phase_fed:
  "list_all2 (fed_with queue_ms ecn_frac loss) fl
     (fst (feedback_phase ops std queue_ms ecn_frac loss fl rs))"
proof (induction fl arbitrary: rs)
  case Nil
  then show ?case by simp
next
  case (Cons f fs)
  show ?case
    unfolding fst_feedback_phase_Cons
    using Cons.IH by (simp add: fed_with_finished fed_with_on_ack)
qed

lemmas eval_defs = step_def Simulator_init_def add_flow_def Flow_init_def Switch_init_def
  check_outage_def send_one_def enqueue_def dequeue_def rate_bytes_per_ms_def PKT_BYTES_def
  LINK_RATE_BYTES_PER_MS_def LINK_RATE_BPS_def LINK_RATE_GBPS_def queue_delay_ms_def
  ecn_fraction_def on_ack_def reno_update_def dctcp_update_def spacecc_update_def
  parity_ops_def Let_def

lemma burst_step: "step parity_ops burst_sim = Inr burst_after"
  by (simp add: eval_defs burst_sim_def burst_after_def)

lemma outage_step: "step parity_ops outage_sim = Inr outage_after"
  by (simp add: eval_defs outage_sim_def outage_after_def)

subsection \<open>What the feedback loop passes to the flows\<close>



subsection \<open>A step in outage\<close>

text \<open>
  Claim C7. The outage flag a step ends with is the one \<^verbatim>\<open>_check_outage\<close> set in it. In a
  step that runs in outage, the send loop and the drain still run (the step ends with the
  switch the send loop filled, drained once), and the active flows it ends with are the
  flows the send loop returned, less the finished ones: no \<^verbatim>\<open>on_ack\<close> touched them, and
  the send loop left \<open>cwnd\<close>, \<open>alpha\<close> and \<open>rtt_smooth\<close> of every flow as they were.
\<close>

theorem outage_freezes_flows:
  assumes "step ops s = Inr s'" and "outage_active s'"
  shows "\<exists>q1 fl1 fl3 sw3 loss recs3.
     admit_due (time_ms s) (short_flow_queue s) (flows s) = Inr (q1, fl1) \<and>
     send_phase (dt_ms s) (time_ms s) fl1 (switch s) False (fct_records s)
       = Inr (fl3, sw3, loss, recs3) \<and>
     map cc_state fl3 = map cc_state fl1 \<and>
     flows s' = filter (\<lambda>f. \<not> finished f) fl3 \<and>
     short_flow_queue s' = q1 \<and>
     switch s' = snd (dequeue sw3 (dt_ms s))"
proof -
  from step_admit [OF assms(1)] obtain q1 fl1 where
    ad: "admit_due (time_ms s) (short_flow_queue s) (flows s) = Inr (q1, fl1)" by blast
  from step_send [OF assms(1) ad] obtain fl3 sw3 loss recs3 where
    se: "send_phase (dt_ms s) (time_ms s) fl1 (switch s) False (fct_records s)
       = Inr (fl3, sw3, loss, recs3)" by blast
  note r = step_result [OF assms(1) ad se]
  have "list_all2 (\<lambda>f f'. cc_state f' = cc_state f) fl1 fl3"
    using send_phase_frame [OF se] by (rule list_all2_mono) (rule sent_from_cc_state)
  then have "map cc_state fl3 = map cc_state fl1"
    by (induction rule: list_all2_induct) simp_all
  moreover have "flows s' = filter (\<lambda>f. \<not> finished f) fl3"
    using r(7) assms(2) by simp
  ultimately show ?thesis using ad se r(2,3) by blast
qed

theorem outage_freezes_flows_witness:
  "step parity_ops outage_sim = Inr outage_after \<and> outage_active outage_after \<and>
   map cc_state (flows outage_after) = map cc_state (flows outage_sim) \<and>
   map sent_bytes (flows outage_sim) = [0] \<and> map sent_bytes (flows outage_after) = [1500] \<and>
   (\<exists>q1 fl1 fl3 sw3 loss recs3.
     admit_due (time_ms outage_sim) (short_flow_queue outage_sim) (flows outage_sim) = Inr (q1, fl1) \<and>
     send_phase (dt_ms outage_sim) (time_ms outage_sim) fl1 (switch outage_sim) False
       (fct_records outage_sim) = Inr (fl3, sw3, loss, recs3) \<and>
     map cc_state fl3 = map cc_state fl1 \<and>
     flows outage_after = filter (\<lambda>f. \<not> finished f) fl3 \<and>
     short_flow_queue outage_after = q1 \<and>
     switch outage_after = snd (dequeue sw3 (dt_ms outage_sim)))"
proof -
  have h1: "step parity_ops outage_sim = Inr outage_after"
    by (simp add: eval_defs outage_sim_def outage_after_def)
  have h2: "outage_active outage_after" by (simp add: outage_after_def)
  have h3: "map cc_state (flows outage_after) = map cc_state (flows outage_sim)"
    by (simp add: outage_after_def outage_sim_def cc_state_def eval_defs)
  have h4: "map sent_bytes (flows outage_sim) = [0] \<and> map sent_bytes (flows outage_after) = [1500]"
    by (simp add: outage_after_def outage_sim_def eval_defs)
  from outage_freezes_flows [OF h1 h2] h1 h2 h3 h4 show ?thesis by simp
qed



section \<open>Properties of a run\<close>

subsection \<open>The window never falls below 2\<close>

lemma list_all2_list_all:
  "list_all2 R xs ys \<Longrightarrow> list_all P xs \<Longrightarrow> (\<And>x y. R x y \<Longrightarrow> P x \<Longrightarrow> Q y) \<Longrightarrow> list_all Q ys"
  by (induction rule: list_all2_induct) auto

lemma fed_with_cwnd: "fed_with q e l f f' \<Longrightarrow> 2 \<le> cwnd f \<Longrightarrow> 2 \<le> cwnd f'"
  by (auto simp: fed_with_def on_ack_cwnd split: if_splits)

lemma fed_with_finished_eq: "fed_with q e l f f' \<Longrightarrow> finished f' = finished f"
  by (auto simp: fed_with_def split: if_splits)

lemma fed_with_start: "fed_with q e l f f' \<Longrightarrow> start_time_ms f' = start_time_ms f"
  by (auto simp: fed_with_def split: if_splits)

lemma fed_with_fid: "fed_with q e l f f' \<Longrightarrow> fid f' = fid f"
  by (auto simp: fed_with_def split: if_splits)

lemma step_cwnd_ok:
  assumes ok: "cwnd_ok s" and st: "step ops s = Inr s'"
  shows "cwnd_ok s'"
proof -
  from step_admit [OF st] obtain q1 fl1 where
    ad: "admit_due (time_ms s) (short_flow_queue s) (flows s) = Inr (q1, fl1)" by blast
  from step_send [OF st ad] obtain fl3 sw3 loss recs3 where
    se: "send_phase (dt_ms s) (time_ms s) fl1 (switch s) False (fct_records s)
       = Inr (fl3, sw3, loss, recs3)" by blast
  note r = step_result [OF st ad se]
  from admit_due_prefix [OF ad] obtain adm where
    q: "short_flow_queue s = adm @ q1" and
    f: "fl1 = flows s @ map (\<lambda>f. f\<lparr>start_time_ms := Some (time_ms s)\<rparr>) adm" by blast
  from ok q have q1: "list_all (\<lambda>f. 2 \<le> cwnd f) q1" and a: "list_all (\<lambda>f. 2 \<le> cwnd f) adm"
    by (simp_all add: cwnd_ok_def)
  from ok a f have fl1: "list_all (\<lambda>f. 2 \<le> cwnd f) fl1"
    by (auto simp: cwnd_ok_def list_all_iff)
  have fl3: "list_all (\<lambda>f. 2 \<le> cwnd f) fl3"
    by (rule list_all2_list_all [OF send_phase_frame [OF se] fl1]) (simp add: sent_from_def)
  have "list_all (\<lambda>f. 2 \<le> cwnd f) (flows s')"
  proof (cases "outage_active s'")
    case True
    with r(7) fl3 show ?thesis by (simp add: list_all_iff)
  next
    case False
    let ?fl5 = "fst (feedback_phase ops (rtt_jitter_std_ms s)
                    (queue_delay_ms (snd (dequeue sw3 (dt_ms s)))) (ecn_fraction (switch s)) loss fl3
                    (rng (check_outage ops (s\<lparr>short_flow_queue := q1, flows := fl1\<rparr>) (time_ms s))))"
    have "list_all (\<lambda>f. 2 \<le> cwnd f) ?fl5"
      by (rule list_all2_list_all [OF feedback_phase_fed fl3]) (rule fed_with_cwnd)
    with False r(7) show ?thesis by (simp add: list_all_iff)
  qed
  with q1 r(3) show ?thesis by (simp add: cwnd_ok_def)
qed

lemma run_steps_cwnd_ok:
  "cwnd_ok s \<Longrightarrow> run_steps ops n s = Inr s' \<Longrightarrow> cwnd_ok s'"
proof (induction n arbitrary: s)
  case 0
  then show ?case by simp
next
  case (Suc n)
  from Suc.prems(2) obtain s1 where a: "step ops s = Inr s1" and b: "run_steps ops n s1 = Inr s'"
    by (auto split: sum.splits)
  from Suc.IH [OF step_cwnd_ok [OF Suc.prems(1) a] b] show ?case .
qed


lemma schedule_loop_0:
  "schedule_loop 0 ops duration lam sz c rtt t i rs q =
     (if t < duration then None else Some (Inr (q, rs)))"
  by (subst schedule_loop.simps) simp

lemma schedule_loop_Suc:
  "schedule_loop (Suc m) ops duration lam sz c rtt t i rs q =
     (if t < duration then
        (if lam = 0 then Some (Inl ZeroDivisionError)
         else if 1000 / lam < 0 then Some (Inl ValueError)
         else if t + fst (rng_exponential ops (1000 / lam) rs) < duration
           then schedule_loop m ops duration lam sz c rtt
                  (t + fst (rng_exponential ops (1000 / lam) rs)) (i + 1)
                  (snd (rng_exponential ops (1000 / lam) rs))
                  (q @ [(Flow_init i c rtt sz)
                         \<lparr>start_time_ms := Some (t + fst (rng_exponential ops (1000 / lam) rs))\<rparr>])
           else schedule_loop m ops duration lam sz c rtt
                  (t + fst (rng_exponential ops (1000 / lam) rs)) i
                  (snd (rng_exponential ops (1000 / lam) rs)) q)
      else Some (Inr (q, rs)))"
  by (subst schedule_loop.simps) (simp add: Let_def split: prod.splits)

lemma schedule_loop_inv:
  assumes new: "\<And>i t'. P ((Flow_init i c rtt sz)\<lparr>start_time_ms := Some t'\<rparr>)"
  shows "list_all P q \<Longrightarrow>
    schedule_loop n ops duration lam sz c rtt t i rs q = Some (Inr (q', rs')) \<Longrightarrow> list_all P q'"
proof (induction n arbitrary: t i rs q)
  case 0
  then show ?case by (simp add: schedule_loop_0 split: if_splits)
next
  case (Suc n)
  show ?case
  proof (cases "t < duration")
    case False
    with Suc.prems show ?thesis by (simp add: schedule_loop_Suc)
  next
    case True
    obtain gap rs1 where d: "rng_exponential ops (1000 / lam) rs = (gap, rs1)"
      by (cases "rng_exponential ops (1000 / lam) rs")
    from True Suc.prems(2) have ok: "lam \<noteq> 0" "\<not> 1000 / lam < 0"
      by (auto simp: schedule_loop_Suc split: if_splits)
    show ?thesis
    proof (cases "t + gap < duration")
      case True
      with \<open>t < duration\<close> ok d Suc.prems(2)
      have "schedule_loop n ops duration lam sz c rtt (t + gap) (i + 1) rs1
              (q @ [(Flow_init i c rtt sz)\<lparr>start_time_ms := Some (t + gap)\<rparr>]) = Some (Inr (q', rs'))"
        by (simp add: schedule_loop_Suc)
      moreover have "list_all P (q @ [(Flow_init i c rtt sz)\<lparr>start_time_ms := Some (t + gap)\<rparr>])"
        using Suc.prems(1) new by simp
      ultimately show ?thesis by (rule Suc.IH [rotated])
    next
      case False
      with \<open>t < duration\<close> ok d Suc.prems(2)
      have "schedule_loop n ops duration lam sz c rtt (t + gap) i rs1 q = Some (Inr (q', rs'))"
        by (simp add: schedule_loop_Suc)
      with Suc.prems(1) show ?thesis by (rule Suc.IH)
    qed
  qed
qed

lemma sort_by_start_set: "sort_by_start q = Inr q' \<Longrightarrow> set q' = set q"
  by (auto simp: sort_by_start_def split: if_splits)

lemma schedule_short_flows_frame:
  assumes "schedule_short_flows n ops s lam sz c rtt = Some (Inr s')"
  obtains q rs where
    "schedule_loop n ops (duration_ms s) lam sz c rtt 0 10000 (rng s) (short_flow_queue s)
       = Some (Inr (q, rs))"
    "set (short_flow_queue s') = set q" "s' = s\<lparr>rng := rs, short_flow_queue := short_flow_queue s'\<rparr>"
  using assms
  by (auto simp: schedule_short_flows_def sort_by_start_set split: option.splits sum.splits prod.splits)

lemma schedule_short_flows_cwnd_ok:
  assumes "cwnd_ok s" and "schedule_short_flows n ops s lam sz c rtt = Some (Inr s')"
  shows "cwnd_ok s'"
proof -
  from schedule_short_flows_frame [OF assms(2)] obtain q rs where
    a: "schedule_loop n ops (duration_ms s) lam sz c rtt 0 10000 (rng s) (short_flow_queue s)
       = Some (Inr (q, rs))" and
    b: "set (short_flow_queue s') = set q" and
    c: "s' = s\<lparr>rng := rs, short_flow_queue := short_flow_queue s'\<rparr>" by blast
  have "list_all (\<lambda>f. 2 \<le> cwnd f) q"
    by (rule schedule_loop_inv [OF _ _ a]) (use assms(1) in \<open>simp_all add: Flow_init_def cwnd_ok_def\<close>)
  then have "list_all (\<lambda>f. 2 \<le> cwnd f) (short_flow_queue s')"
    using b by (simp add: list_all_iff)
  moreover have "flows s' = flows s" by (subst c) simp
  ultimately show ?thesis using assms(1) by (simp add: cwnd_ok_def)
qed

lemma Simulator_init_cwnd_ok: "cwnd_ok (Simulator_init dt duration sw rs)"
  by (simp add: cwnd_ok_def Simulator_init_def)

lemma add_flow_cwnd_ok: "cwnd_ok s \<Longrightarrow> 2 \<le> cwnd f \<Longrightarrow> cwnd_ok (add_flow s f)"
  by (simp add: cwnd_ok_def add_flow_def)


lemma mix_schedule:
  "schedule_short_flows 5 parity_ops (mix_sim 0) 50 (Fin 3000) ''dctcp'' 1 = Some (Inr mix_scheduled)"
  unfolding mix_sim_def mix_scheduled_def by code_simp

lemma burst_run: "run_steps parity_ops (Suc 0) burst_sim = Inr burst_after"
  by (simp add: burst_step)

text \<open>
  Claim C2. \<^verbatim>\<open>on_ack\<close> keeps \<open>cwnd \<ge> 2\<close>, whatever the tag and the inputs. A new flow
  has \<open>cwnd = 10\<close>. So every flow a simulator holds, active or pending, has \<open>cwnd \<ge> 2\<close>
  all along: a new simulator holds no flow, \<^verbatim>\<open>add_flow\<close> and
  \<^verbatim>\<open>schedule_short_flows\<close> keep the bound, and so does any number of steps.
\<close>

theorem cwnd_at_least_two:
  "(2 \<le> cwnd f \<longrightarrow> 2 \<le> cwnd (on_ack f rtt_ms queue_ms ecn_frac loss)) \<and>
   cwnd (Flow_init i c rtt sz) = 10 \<and>
   cwnd_ok (Simulator_init dt duration sw rs) \<and>
   (cwnd_ok s \<and> 2 \<le> cwnd f \<longrightarrow> cwnd_ok (add_flow s f)) \<and>
   (cwnd_ok s \<and> schedule_short_flows n ops s lam sz c rtt = Some (Inr s1) \<longrightarrow> cwnd_ok s1) \<and>
   (cwnd_ok s \<and> run_steps ops k s = Inr s2 \<longrightarrow> cwnd_ok s2)"
proof (intro conjI impI)
  show "cwnd (Flow_init i c rtt sz) = 10" by (simp add: Flow_init_def)
  show "cwnd_ok (Simulator_init dt duration sw rs)" by (rule Simulator_init_cwnd_ok)
next
  assume "2 \<le> cwnd f"
  then show "2 \<le> cwnd (on_ack f rtt_ms queue_ms ecn_frac loss)" by (rule on_ack_cwnd)
next
  assume "cwnd_ok s \<and> 2 \<le> cwnd f"
  then show "cwnd_ok (add_flow s f)" by (simp add: add_flow_cwnd_ok)
next
  assume "cwnd_ok s \<and> schedule_short_flows n ops s lam sz c rtt = Some (Inr s1)"
  then show "cwnd_ok s1" using schedule_short_flows_cwnd_ok by blast
next
  assume "cwnd_ok s \<and> run_steps ops k s = Inr s2"
  then show "cwnd_ok s2" using run_steps_cwnd_ok by blast
qed

theorem cwnd_at_least_two_witness:
  "2 \<le> cwnd (Flow_init 0 ''reno'' 1 PosInf) \<and>
   cwnd (on_ack (Flow_init 0 ''reno'' 1 PosInf) 1 0 1 True) = 5 \<and>
   cwnd_ok (mix_sim 0) \<and>
   cwnd_ok (add_flow (mix_sim 0) (Flow_init 0 ''reno'' 1 PosInf)) \<and>
   schedule_short_flows 5 parity_ops (mix_sim 0) 50 (Fin 3000) ''dctcp'' 1 = Some (Inr mix_scheduled) \<and>
   cwnd_ok mix_scheduled \<and>
   cwnd_ok burst_sim \<and> run_steps parity_ops (Suc 0) burst_sim = Inr burst_after \<and>
   cwnd_ok burst_after"
proof -
  have a: "2 \<le> cwnd (Flow_init 0 ''reno'' 1 PosInf)" by (simp add: Flow_init_def)
  have b: "cwnd (on_ack (Flow_init 0 ''reno'' 1 PosInf) 1 0 1 True) = 5"
    by (simp add: Flow_init_def on_ack_def reno_update_def)
  have c: "cwnd_ok (mix_sim 0)" by (simp add: mix_sim_def cwnd_ok_def Simulator_init_def)
  have d: "cwnd_ok burst_sim"
    by (simp add: burst_sim_def cwnd_ok_def Simulator_init_def add_flow_def Flow_init_def)
  note t1 = cwnd_at_least_two [where f = "Flow_init 0 ''reno'' 1 PosInf" and rtt_ms = 1
      and queue_ms = 0 and ecn_frac = 1 and loss = True and i = 10000 and c = "''dctcp''"
      and rtt = 1 and sz = "Fin 3000" and dt = 10 and duration = 50 and sw = None
      and rs = "0::nat" and s = "mix_sim 0" and n = 5 and ops = parity_ops and lam = 50
      and ?s1.0 = mix_scheduled and k = 0 and ?s2.0 = "mix_sim 0"]
  note t2 = cwnd_at_least_two [where f = "Flow_init 0 ''reno'' 1 PosInf" and rtt_ms = 1
      and queue_ms = 0 and ecn_frac = 1 and loss = True and i = 10000 and c = "''dctcp''"
      and rtt = 1 and sz = "Fin 3000" and dt = 10 and duration = 50 and sw = None
      and rs = "0::nat" and s = burst_sim and n = 5 and ops = parity_ops and lam = 50
      and ?s1.0 = mix_scheduled and k = "Suc 0" and ?s2.0 = burst_after]
  from t1 t2 a b c d mix_schedule burst_run show ?thesis
    by simp
qed

subsection \<open>Flows that finish\<close>

lemma started_by_mono: "started_by t f \<Longrightarrow> t \<le> t' \<Longrightarrow> started_by t' f"
  by (auto simp: started_by_def split: option.splits)

lemma started_by_later: "started_by t f \<Longrightarrow> 0 \<le> d \<Longrightarrow> started_by (t + d) f"
  by (auto simp: started_by_def split: option.splits)

lemma started_by_admitted: "started_by t (f\<lparr>start_time_ms := Some t\<rparr>)"
  by (simp add: started_by_def)

lemma sent_from_started: "sent_from f f' \<Longrightarrow> started_by t f \<Longrightarrow> started_by t f'"
  by (simp add: sent_from_def started_by_def)

lemma fed_with_started: "fed_with q e l f f' \<Longrightarrow> started_by t f \<Longrightarrow> started_by t f'"
  by (simp add: fed_with_start started_by_def)

lemma list_all2_map_eq:
  "list_all2 R xs ys \<Longrightarrow> (\<And>x y. R x y \<Longrightarrow> h y = h x) \<Longrightarrow> map h ys = map h xs"
  by (induction rule: list_all2_induct) auto

lemma list_all2_filter_map:
  "list_all2 R xs ys \<Longrightarrow> (\<And>x y. R x y \<Longrightarrow> P y = P x \<and> h y = h x) \<Longrightarrow>
   map h (filter P ys) = map h (filter P xs)"
  by (induction rule: list_all2_induct) auto

lemma step_completion:
  assumes ok: "active_ok s" and dt: "0 \<le> dt_ms s" and st: "step ops s = Inr s'"
  shows "\<exists>q1 fl1 fl3 sw3 loss new.
     admit_due (time_ms s) (short_flow_queue s) (flows s) = Inr (q1, fl1) \<and>
     send_phase (dt_ms s) (time_ms s) fl1 (switch s) False (fct_records s)
       = Inr (fl3, sw3, loss, fct_records s') \<and>
     list_all (\<lambda>f. finished f \<longleftrightarrow> (\<exists>sz. size_bytes f = Fin sz \<and> sz \<le> sent_bytes f)) fl3 \<and>
     fct_records s' = fct_records s @ new \<and>
     list_all2 (records_flow (time_ms s)) (filter finished fl3) new \<and>
     map fid (flows s') = map fid (filter (\<lambda>f. \<not> finished f) fl3) \<and>
     length (short_flow_queue s') + length (flows s') + length (fct_records s')
       = length (short_flow_queue s) + length (flows s) + length (fct_records s) \<and>
     active_ok s'"
proof -
  from step_admit [OF st] obtain q1 fl1 where
    ad: "admit_due (time_ms s) (short_flow_queue s) (flows s) = Inr (q1, fl1)" by blast
  from step_send [OF st ad] obtain fl3 sw3 loss recs3 where
    se: "send_phase (dt_ms s) (time_ms s) fl1 (switch s) False (fct_records s)
       = Inr (fl3, sw3, loss, recs3)" by blast
  note r = step_result [OF st ad se]
  from admit_due_prefix [OF ad] obtain adm where
    q: "short_flow_queue s = adm @ q1" and
    f: "fl1 = flows s @ map (\<lambda>f. f\<lparr>start_time_ms := Some (time_ms s)\<rparr>) adm" by blast
  from ok q have q1: "list_all (\<lambda>f. \<not> finished f) q1" and a: "list_all (\<lambda>f. \<not> finished f) adm"
    by (simp_all add: active_ok_def)
  from ok a f have fl1: "list_all (\<lambda>f. \<not> finished f \<and> started_by (time_ms s) f) fl1"
    by (auto simp: active_ok_def list_all_iff started_by_admitted)
  note fr = send_phase_frame [OF se]
  from send_phase_completion [OF se fl1] obtain new where
    n1: "recs3 = fct_records s @ new" and
    n2: "list_all2 (records_flow (time_ms s)) (filter finished fl3) new" and
    n3: "list_all (\<lambda>f. finished f \<longleftrightarrow> (\<exists>sz. size_bytes f = Fin sz \<and> sz \<le> sent_bytes f)) fl3"
    by blast
  have st3: "list_all (started_by (time_ms s)) fl3"
    by (rule list_all2_list_all [OF fr fl1]) (simp add: sent_from_started)
  let ?fl5 = "if \<not> outage_active s'
        then fst (feedback_phase ops (rtt_jitter_std_ms s)
                    (queue_delay_ms (snd (dequeue sw3 (dt_ms s)))) (ecn_fraction (switch s)) loss fl3
                    (rng (check_outage ops (s\<lparr>short_flow_queue := q1, flows := fl1\<rparr>) (time_ms s))))
        else fl3"
  have fed: "list_all2 (\<lambda>f f'. finished f' = finished f \<and> fid f' = fid f \<and>
                (started_by (time_ms s) f \<longrightarrow> started_by (time_ms s) f')) fl3 ?fl5"
  proof (cases "outage_active s'")
    case True
    then show ?thesis by (simp add: list_all2_refl)
  next
    case False
    have "list_all2 (\<lambda>f f'. finished f' = finished f \<and> fid f' = fid f \<and>
                (started_by (time_ms s) f \<longrightarrow> started_by (time_ms s) f')) fl3
             (fst (feedback_phase ops (rtt_jitter_std_ms s)
                    (queue_delay_ms (snd (dequeue sw3 (dt_ms s)))) (ecn_fraction (switch s)) loss fl3
                    (rng (check_outage ops (s\<lparr>short_flow_queue := q1, flows := fl1\<rparr>) (time_ms s)))))"
      by (rule list_all2_mono [OF feedback_phase_fed])
        (simp add: fed_with_finished_eq fed_with_fid fed_with_started)
    with False show ?thesis by simp
  qed
  have fl': "flows s' = filter (\<lambda>f. \<not> finished f) ?fl5" using r(7) .
  have ids: "map fid (flows s') = map fid (filter (\<lambda>f. \<not> finished f) fl3)"
    unfolding fl' by (rule list_all2_filter_map [OF fed]) simp
  have st5: "list_all (started_by (time_ms s)) ?fl5"
    by (rule list_all2_list_all [OF fed st3]) simp
  have act: "list_all (\<lambda>f. \<not> finished f \<and> started_by (time_ms s') f) (flows s')"
    unfolding fl' r(4) using st5 dt
    by (auto simp: list_all_iff started_by_later)
  have len3: "length fl3 = length fl1" using fr by (simp add: list_all2_lengthD)
  have "length (flows s') = length (filter (\<lambda>f. \<not> finished f) fl3)"
    using ids by (metis length_map)
  moreover have "length new = length (filter finished fl3)"
    using n2 by (simp add: list_all2_lengthD)
  moreover have "length (filter finished fl3) + length (filter (\<lambda>f. \<not> finished f) fl3) = length fl3"
    by (rule sum_length_filter_compl)
  ultimately have cnt: "length (short_flow_queue s') + length (flows s') + length (fct_records s')
       = length (short_flow_queue s) + length (flows s) + length (fct_records s)"
    using r(1,3) n1 len3 q f by simp
  have "active_ok s'" using act q1 r(3) by (simp add: active_ok_def)
  with ad se r(1) n1 n2 n3 ids cnt show ?thesis by blast
qed


lemma step_dt_ms: "step ops s = Inr s' \<Longrightarrow> dt_ms s' = dt_ms s"
proof -
  assume st: "step ops s = Inr s'"
  from step_admit [OF st] obtain q1 fl1 where
    ad: "admit_due (time_ms s) (short_flow_queue s) (flows s) = Inr (q1, fl1)" by blast
  from step_send [OF st ad] obtain fl3 sw3 loss recs3 where
    se: "send_phase (dt_ms s) (time_ms s) fl1 (switch s) False (fct_records s)
       = Inr (fl3, sw3, loss, recs3)" by blast
  from step_result(5) [OF st ad se] show ?thesis .
qed

lemma run_steps_active_ok:
  "active_ok s \<Longrightarrow> 0 \<le> dt_ms s \<Longrightarrow> run_steps ops n s = Inr s' \<Longrightarrow>
   active_ok s' \<and> dt_ms s' = dt_ms s"
proof (induction n arbitrary: s)
  case 0
  then show ?case by simp
next
  case (Suc n)
  from Suc.prems(3) obtain s1 where a: "step ops s = Inr s1" and b: "run_steps ops n s1 = Inr s'"
    by (auto split: sum.splits)
  from step_completion [OF Suc.prems(1,2) a] have ok1: "active_ok s1" by blast
  have dt1: "dt_ms s1 = dt_ms s" by (rule step_dt_ms [OF a])
  from Suc.IH [OF ok1 _ b] Suc.prems(2) dt1 show ?case by simp
qed

lemma Simulator_init_active_ok: "active_ok (Simulator_init dt duration sw rs)"
  by (simp add: active_ok_def Simulator_init_def)

lemma add_flow_active_ok: "active_ok s \<Longrightarrow> \<not> finished f \<Longrightarrow> active_ok (add_flow s f)"
  by (simp add: active_ok_def add_flow_def started_by_def)

lemma schedule_short_flows_active_ok:
  assumes "active_ok s" and "schedule_short_flows n ops s lam sz c rtt = Some (Inr s')"
  shows "active_ok s'"
proof -
  from schedule_short_flows_frame [OF assms(2)] obtain q rs where
    a: "schedule_loop n ops (duration_ms s) lam sz c rtt 0 10000 (rng s) (short_flow_queue s)
       = Some (Inr (q, rs))" and
    b: "set (short_flow_queue s') = set q" and
    c: "s' = s\<lparr>rng := rs, short_flow_queue := short_flow_queue s'\<rparr>" by blast
  have "list_all (\<lambda>f. \<not> finished f) q"
    by (rule schedule_loop_inv [OF _ _ a]) (use assms(1) in \<open>simp_all add: Flow_init_def active_ok_def\<close>)
  then have "list_all (\<lambda>f. \<not> finished f) (short_flow_queue s')"
    using b by (simp add: list_all_iff)
  moreover have "flows s' = flows s" "time_ms s' = time_ms s" by (subst c, simp)+
  ultimately show ?thesis using assms(1) by (simp add: active_ok_def)
qed

text \<open>Claim C9. Take a simulator whose active flows are all unfinished and started, with a
  time step that is not negative, run it any number of steps, and then one more. In that step
  a sent flow is finished exactly when its size is finite and its sent bytes reach it; the
  completion records grow by one record for each flow finished in the step, in order, each
  record carrying the step's time as finish time and \<open>fct_ms = finish - start \<ge> 0\<close>; the
  finished flows are gone from the active list, which again holds unfinished flows only, so
  that no later step sends or updates them; and a flow is in exactly one of queue, active
  list and records: their lengths add up to the same number before and after.\<close>

theorem flow_completion:
  assumes "active_ok s0" and "0 \<le> dt_ms s0" and "run_steps ops n s0 = Inr s"
    and "step ops s = Inr s'"
  shows "\<exists>q1 fl1 fl3 sw3 loss new.
     admit_due (time_ms s) (short_flow_queue s) (flows s) = Inr (q1, fl1) \<and>
     send_phase (dt_ms s) (time_ms s) fl1 (switch s) False (fct_records s)
       = Inr (fl3, sw3, loss, fct_records s') \<and>
     list_all (\<lambda>f. finished f \<longleftrightarrow> (\<exists>sz. size_bytes f = Fin sz \<and> sz \<le> sent_bytes f)) fl3 \<and>
     fct_records s' = fct_records s @ new \<and>
     list_all2 (records_flow (time_ms s)) (filter finished fl3) new \<and>
     map fid (flows s') = map fid (filter (\<lambda>f. \<not> finished f) fl3) \<and>
     length (short_flow_queue s') + length (flows s') + length (fct_records s')
       = length (short_flow_queue s) + length (flows s) + length (fct_records s) \<and>
     active_ok s'"
proof -
  from run_steps_active_ok [OF assms(1,2,3)] have "active_ok s" "0 \<le> dt_ms s"
    using assms(2) by simp_all
  then show ?thesis using assms(4) by (rule step_completion)
qed

theorem flow_completion_witness:
  "active_ok outage_sim \<and> 0 \<le> dt_ms outage_sim \<and>
   run_steps parity_ops (Suc 0) outage_sim = Inr outage_after \<and>
   step parity_ops outage_after = Inr outage_done \<and>
   fct_records outage_after = [] \<and>
   fct_records outage_done = [\<lparr>r_fid = 7, r_cc = ''spacecc'', r_size_bytes = Fin 3000, fct_ms = 1\<rparr>] \<and>
   flows outage_done = [] \<and>
   (\<exists>q1 fl1 fl3 sw3 loss new.
     admit_due (time_ms outage_after) (short_flow_queue outage_after) (flows outage_after)
       = Inr (q1, fl1) \<and>
     send_phase (dt_ms outage_after) (time_ms outage_after) fl1 (switch outage_after) False
       (fct_records outage_after) = Inr (fl3, sw3, loss, fct_records outage_done) \<and>
     list_all (\<lambda>f. finished f \<longleftrightarrow> (\<exists>sz. size_bytes f = Fin sz \<and> sz \<le> sent_bytes f)) fl3 \<and>
     fct_records outage_done = fct_records outage_after @ new \<and>
     list_all2 (records_flow (time_ms outage_after)) (filter finished fl3) new \<and>
     map fid (flows outage_done) = map fid (filter (\<lambda>f. \<not> finished f) fl3) \<and>
     length (short_flow_queue outage_done) + length (flows outage_done)
         + length (fct_records outage_done)
       = length (short_flow_queue outage_after) + length (flows outage_after)
         + length (fct_records outage_after) \<and>
     active_ok outage_done)"
proof -
  have h1: "active_ok outage_sim"
    by (simp add: active_ok_def started_by_def outage_sim_def eval_defs)
  have h2: "0 \<le> dt_ms outage_sim" by (simp add: outage_sim_def eval_defs)
  have h3: "run_steps parity_ops (Suc 0) outage_sim = Inr outage_after"
    by (simp add: outage_step)
  have h4: "step parity_ops outage_after = Inr outage_done"
    by (simp add: eval_defs outage_after_def outage_done_def)
  have h5: "fct_records outage_after = [] \<and>
    fct_records outage_done = [\<lparr>r_fid = 7, r_cc = ''spacecc'', r_size_bytes = Fin 3000, fct_ms = 1\<rparr>] \<and>
    flows outage_done = []"
    by (simp add: outage_after_def outage_done_def)
  from flow_completion [OF h1 h2 h3 h4] h1 h2 h3 h4 h5 show ?thesis by blast
qed

subsection \<open>Two runs from the same seed\<close>






















end
